theory Spec2Isabelle
  imports Main "HOL-Library.AList"
begin

section \<open>Strings\<close>

text \<open>
  A string is a list of characters; a character stands for one code unit of the
  script's string, in the range of \<^typ>\<open>char\<close>. Of these code units,
  \<^verbatim>\<open>String.prototype.trim\<close> and the regular expression class \<^verbatim>\<open>\s\<close> treat the same
  ones as white space: tab, line feed, vertical tab, form feed, carriage return, space and
  the no-break space.
\<close>

definition is_space :: "char \<Rightarrow> bool" where
  "is_space c \<longleftrightarrow> c \<in> {CHR 0x09, CHR 0x0A, CHR 0x0B, CHR 0x0C, CHR 0x0D, CHR 0x20, CHR 0xA0}"

definition trimStart :: "string \<Rightarrow> string" where
  "trimStart s = dropWhile is_space s"

definition trimEnd :: "string \<Rightarrow> string" where
  "trimEnd s = rev (dropWhile is_space (rev s))"

text \<open>\<^verbatim>\<open>s.trim()\<close>\<close>

definition trim :: "string \<Rightarrow> string" where
  "trim s = trimEnd (trimStart s)"

text \<open>
  \<^verbatim>\<open>s.split(",")\<close>: the pieces between the separators, in order; the empty string gives
  one empty piece.
\<close>

fun split_comma :: "string \<Rightarrow> string list" where
  "split_comma [] = [[]]"
| "split_comma (c # cs) =
     (if c = CHR '','' then [] # split_comma cs
      else (case split_comma cs of
              [] \<Rightarrow> [[c]]
            | p # ps \<Rightarrow> (c # p) # ps))"

text \<open>
  \<^verbatim>\<open>s.split(/\s+/)\<close>: the pieces between the maximal runs of white space; a run at the
  start or at the end of the string leaves an empty piece there.
\<close>

function split_ws :: "string \<Rightarrow> string list" where
  "split_ws [] = [[]]"
| "split_ws (c # cs) =
     (if is_space c then [] # split_ws (dropWhile is_space cs)
      else (case split_ws cs of
              [] \<Rightarrow> [[c]]
            | p # ps \<Rightarrow> (c # p) # ps))"
  by pat_completeness auto
termination
  by (relation "measure length") (auto simp: less_Suc_eq_le length_dropWhile_le)

text \<open>\<^verbatim>\<open>parts.join(" ")\<close>\<close>

fun join_space :: "string list \<Rightarrow> string" where
  "join_space [] = []"
| "join_space [p] = p"
| "join_space (p # q # ps) = p @ CHR '' '' # join_space (q # ps)"

text \<open>The decimal numeral of a count, as a template literal \<^verbatim>\<open>`${count}`\<close> prints it.\<close>

fun string_of_nat :: "nat \<Rightarrow> string" where
  "string_of_nat n =
     (if n < 10 then [char_of (48 + n)]
      else string_of_nat (n div 10) @ [char_of (48 + n mod 10)])"

declare string_of_nat.simps [simp del]


section \<open>Matching\<close>

datatype match_mode = Equals | Contains

text \<open>
  The test of \<^verbatim>\<open>matchMode === "contains"\<close> in \<^verbatim>\<open>filterElements\<close>: the declared value
  \<open>elementValue\<close> of an element against the value \<open>filterValue\<close> of a filter.
\<close>

definition containsToken :: "string \<Rightarrow> string \<Rightarrow> bool" where
  "containsToken elementValue filterValue =
     (let hayRaw = trim elementValue in
      if hayRaw = [] then False
      else
        (let parts = (if CHR '','' \<in> set hayRaw then split_comma hayRaw else split_ws hayRaw)
         in list_ex (\<lambda>p. p = filterValue) (filter (\<lambda>p. p \<noteq> []) (map trim parts))))"

text \<open>
  The tokens of a declared value as the specification words them: split on commas if
  any comma is present, else on white space runs; trim each token; drop the empty ones.
\<close>

definition spec_tokens :: "string \<Rightarrow> string list" where
  "spec_tokens declared =
     filter (\<lambda>t. t \<noteq> [])
       (map trim (if CHR '','' \<in> set declared then split_comma declared else split_ws declared))"

text \<open>The non-empty trimmed pieces of either way of splitting.\<close>

definition tokens_comma :: "string \<Rightarrow> string list" where
  "tokens_comma s = filter (\<lambda>p. p \<noteq> []) (map trim (split_comma s))"

definition tokens_ws :: "string \<Rightarrow> string list" where
  "tokens_ws s = filter (\<lambda>p. p \<noteq> []) (map trim (split_ws s))"

text \<open>
  The callback of \<^verbatim>\<open>Object.entries(this.currentFilters).every\<close>: one entry of the filter
  state against the data attributes of one element. The data attributes are a map from
  the key to the declared value, \<open>None\<close> where \<^verbatim>\<open>element.dataset[filterName]\<close> is
  undefined.
\<close>

definition matchesFilter ::
  "match_mode \<Rightarrow> string \<Rightarrow> (string \<rightharpoonup> string) \<Rightarrow> string \<times> string \<Rightarrow> bool" where
  "matchesFilter mode allv ds = (\<lambda>(filterName, filterValue).
     if filterValue = allv then True
     else (case ds filterName of
             None \<Rightarrow> True
           | Some elementValue \<Rightarrow>
               if mode = Contains then containsToken elementValue filterValue
               else elementValue = filterValue))"

section \<open>The page and the script's heap\<close>

text \<open>
  What the engine reads and writes of a page element: its \<^verbatim>\<open>id\<close>, its \<^verbatim>\<open>name\<close>, its
  \<^verbatim>\<open>hidden\<close> flag, its data attributes by key, its other attributes, its text, its
  \<^verbatim>\<open>style.viewTransitionName\<close>. A filter control is a page element too; its kind
  decides what \<^verbatim>\<open>filter.value\<close> reads and what \<^verbatim>\<open>reset\<close> does with it: a select
  (\<^verbatim>\<open>HTMLSelectElement\<close>) holds the values of its options in tree order and the index
  of its first selected option, if any; a toggle is an input of type checkbox or radio,
  with its checked state and its value; a field is any other input; everything else has a
  value or none.
\<close>

datatype control =
    Select "string list" "nat option"
  | Toggle bool string
  | Field string
  | Other "string option"

text \<open>
  \<^verbatim>\<open>filter.value\<close>; \<open>None\<close> where the element has no such property. A select without a
  selected option reads as the empty string.
\<close>

fun control_value :: "control \<Rightarrow> string option" where
  "control_value (Select opts sel) =
     Some (case sel of
             None \<Rightarrow> []
           | Some i \<Rightarrow> if i < length opts then opts ! i else [])"
| "control_value (Toggle checked v) = Some v"
| "control_value (Field v) = Some v"
| "control_value (Other v) = v"

text \<open>The first index at which a list holds a value.\<close>

fun index_of :: "'a \<Rightarrow> 'a list \<Rightarrow> nat option" where
  "index_of x [] = None"
| "index_of x (y # ys) = (if y = x then Some 0 else map_option Suc (index_of x ys))"

record node =
  node_id :: string
  name :: string
  hidden :: bool
  dataset :: "string \<rightharpoonup> string"
  attributes :: "string \<rightharpoonup> string"
  textContent :: string
  viewTransitionName :: string
  control :: control

type_synonym node_ref = nat
type_synonym ref = nat

text \<open>
  What a pass does, in the order in which it does it: the pass is entered, the before
  hook is called with the two copies at these addresses, an element's \<^verbatim>\<open>hidden\<close> is
  assigned, the \<^verbatim>\<open>hidden\<close> of the no-results message is assigned, the text of the status
  element is assigned, the after hook is called with the two copies and the two counts.
\<close>

datatype event =
    Begin
  | Before ref ref
  | Visibility node_ref bool
  | NoResults node_ref bool
  | Status node_ref string
  | After ref nat nat ref

text \<open>
  The world holds the page elements, the script's plain objects (the own properties of
  each, in insertion order) and arrays of page elements, both at addresses of which
  \<open>fresh\<close> is the first unused one, the log of the passes, the latch and the effect of
  \<^verbatim>\<open>_ensureBaseStyles\<close>, and the number of passes handed to
  \<^verbatim>\<open>document.startViewTransition\<close>. The log is an observer's record; no code reads it.
\<close>

record world =
  nodes :: "node_ref \<Rightarrow> node"
  objects :: "ref \<Rightarrow> (string \<times> string) list"
  arrays :: "ref \<Rightarrow> node_ref list"
  fresh :: ref
  log :: "event list"
  baseStylesInjected :: bool
  headStyles :: nat
  pendingTransitions :: nat

datatype exn = Error string

text \<open>
  The object a hook receives: \<^verbatim>\<open>currentFilters\<close> and \<^verbatim>\<open>elements\<close> are addresses,
  \<open>c_counts\<close> is \<^verbatim>\<open>visibleCount\<close> and \<^verbatim>\<open>totalCount\<close>, which only the after hook gets.
  A hook is any function of that object and of the world: it may change the world and it
  may throw.
\<close>

record ctx =
  c_currentFilters :: ref
  c_counts :: "(nat \<times> nat) option"
  c_elements :: ref

type_synonym hook = "ctx \<Rightarrow> world \<Rightarrow> (exn + unit) \<times> world"

datatype scope = Document | Within node_ref

text \<open>
  The configuration captured by the constructor, and the engine: the configuration, the
  addresses of \<^verbatim>\<open>this.currentFilters\<close> and of \<^verbatim>\<open>this.elements\<close>, the two auxiliary
  elements and the controls.
\<close>

record config =
  elementsSelector :: string
  root :: scope
  filtersSelector :: string
  noResultsSelector :: string
  statusSelector :: "string option"
  allValue :: string
  viewTransitionPrefix :: string
  statusFormatter :: "nat \<Rightarrow> string"
  matchMode :: match_mode
  onBeforeFilter :: "hook option"
  onAfterFilter :: "hook option"

record engine =
  config :: config
  currentFilters :: ref
  elements :: ref
  noResultsMessage :: "node_ref option"
  statusElement :: "node_ref option"
  filters :: "node_ref list"

text \<open>
  What the hosting page answers: the elements a selector resolves to under a scope, in
  document order (selectors are taken to be well formed), \<^verbatim>\<open>closest\<close>,
  \<^verbatim>\<open>parentElement\<close>, the characters \<^verbatim>\<open>Math.random().toString(36).slice(2, 8)\<close>
  yields, and whether \<^verbatim>\<open>document.startViewTransition\<close> exists.
\<close>

record host =
  querySelectorAll :: "world \<Rightarrow> scope \<Rightarrow> string \<Rightarrow> node_ref list"
  closest :: "world \<Rightarrow> node_ref \<Rightarrow> string \<Rightarrow> node_ref option"
  parentElement :: "world \<Rightarrow> node_ref \<Rightarrow> node_ref option"
  randomSuffix :: string
  startViewTransition :: bool

definition querySelector :: "host \<Rightarrow> world \<Rightarrow> scope \<Rightarrow> string \<Rightarrow> node_ref option" where
  "querySelector h w r sel = (case querySelectorAll h w r sel of [] \<Rightarrow> None | a # _ \<Rightarrow> Some a)"

subsection \<open>Writes\<close>

definition set_node :: "node_ref \<Rightarrow> (node \<Rightarrow> node) \<Rightarrow> world \<Rightarrow> world" where
  "set_node a f w = w\<lparr>nodes := (nodes w)(a := f (nodes w a))\<rparr>"

definition setHidden :: "node_ref \<Rightarrow> bool \<Rightarrow> world \<Rightarrow> world" where
  "setHidden a b = set_node a (\<lambda>n. n\<lparr>hidden := b\<rparr>)"

definition setAttribute :: "node_ref \<Rightarrow> string \<Rightarrow> string \<Rightarrow> world \<Rightarrow> world" where
  "setAttribute a k v = set_node a (\<lambda>n. n\<lparr>attributes := (attributes n)(k \<mapsto> v)\<rparr>)"

definition emit :: "event \<Rightarrow> world \<Rightarrow> world" where
  "emit e w = w\<lparr>log := log w @ [e]\<rparr>"

text \<open>
  \<^verbatim>\<open>obj[k] = v\<close> on a plain object: the value of an own property changes in place, a new
  property comes last. The object is read as the dictionary of its own properties, which
  is what assignment, spread and \<^verbatim>\<open>Object.entries\<close> see of it for every key but
  \<open>__proto__\<close>, the one name that a plain object inherits as an accessor.
\<close>

definition setProperty :: "ref \<Rightarrow> string \<Rightarrow> string \<Rightarrow> world \<Rightarrow> world" where
  "setProperty r k v w = w\<lparr>objects := (objects w)(r := AList.update k v (objects w r))\<rparr>"

text \<open>A new object or array takes the first unused address.\<close>

definition newObject :: "(string \<times> string) list \<Rightarrow> world \<Rightarrow> ref \<times> world" where
  "newObject kvs w = (fresh w, w\<lparr>objects := (objects w)(fresh w := kvs), fresh := Suc (fresh w)\<rparr>)"

definition newArray :: "node_ref list \<Rightarrow> world \<Rightarrow> ref \<times> world" where
  "newArray xs w = (fresh w, w\<lparr>arrays := (arrays w)(fresh w := xs), fresh := Suc (fresh w)\<rparr>)"

section \<open>The pass: \<^verbatim>\<open>filterElements\<close>\<close>

text \<open>
  A hook is called with copies: \<^verbatim>\<open>{ ...this.currentFilters }\<close> is a new object and
  \<^verbatim>\<open>this.elements.slice()\<close> a new array; \<open>snapshot\<close> makes the two and the object that
  holds them. The call is logged; whatever the hook returns, the log goes on from where the
  engine left it.
\<close>

definition invoke :: "hook \<Rightarrow> ctx \<Rightarrow> event \<Rightarrow> world \<Rightarrow> (exn + unit) \<times> world" where
  "invoke h c e w = (case h c w of (r, w') \<Rightarrow> (r, w'\<lparr>log := log w @ [e]\<rparr>))"

definition snapshot :: "engine \<Rightarrow> (nat \<times> nat) option \<Rightarrow> world \<Rightarrow> ctx \<times> world" where
  "snapshot eng counts w =
     (let (fa, w1) = newObject (objects w (currentFilters eng)) w;
          (ea, w2) = newArray (arrays w1 (elements eng)) w1
      in (\<lparr>c_currentFilters = fa, c_counts = counts, c_elements = ea\<rparr>, w2))"

definition callBefore :: "engine \<Rightarrow> world \<Rightarrow> (exn + unit) \<times> world" where
  "callBefore eng w =
     (case onBeforeFilter (config eng) of
        None \<Rightarrow> (Inr (), w)
      | Some h \<Rightarrow>
          (case snapshot eng None w of
             (c, w2) \<Rightarrow> invoke h c (Before (c_currentFilters c) (c_elements c)) w2))"

definition callAfter :: "engine \<Rightarrow> nat \<Rightarrow> nat \<Rightarrow> world \<Rightarrow> (exn + unit) \<times> world" where
  "callAfter eng visibleCount totalCount w =
     (case onAfterFilter (config eng) of
        None \<Rightarrow> (Inr (), w)
      | Some h \<Rightarrow>
          (case snapshot eng (Some (visibleCount, totalCount)) w of
             (c, w2) \<Rightarrow>
               invoke h c (After (c_currentFilters c) visibleCount totalCount (c_elements c)) w2))"

text \<open>\<^verbatim>\<open>Object.entries(this.currentFilters).every(...)\<close> for one element.\<close>

definition matchesAllFilters :: "engine \<Rightarrow> world \<Rightarrow> node_ref \<Rightarrow> bool" where
  "matchesAllFilters eng w element =
     list_all
       (matchesFilter (matchMode (config eng)) (allValue (config eng))
          (dataset (nodes w element)))
       (objects w (currentFilters eng))"

text \<open>The body of \<^verbatim>\<open>this.elements.forEach\<close>, on the world and the two local counters.\<close>

definition visit :: "engine \<Rightarrow> node_ref \<Rightarrow> world \<times> bool \<times> nat \<Rightarrow> world \<times> bool \<times> nat" where
  "visit eng element = (\<lambda>(w, hasVisibleElements, visibleCount).
     if matchesAllFilters eng w element
     then (emit (Visibility element False) (setHidden element False w), True, visibleCount + 1)
     else (emit (Visibility element True) (setHidden element True w),
           hasVisibleElements, visibleCount))"

definition updateNoResults :: "engine \<Rightarrow> bool \<Rightarrow> world \<Rightarrow> world" where
  "updateNoResults eng hasVisibleElements w =
     (case noResultsMessage eng of
        None \<Rightarrow> w
      | Some m \<Rightarrow> emit (NoResults m hasVisibleElements) (setHidden m hasVisibleElements w))"

definition updateStatus :: "engine \<Rightarrow> nat \<Rightarrow> world \<Rightarrow> world" where
  "updateStatus eng visibleCount w =
     (case statusElement eng of
        None \<Rightarrow> w
      | Some s \<Rightarrow>
          (let t = statusFormatter (config eng) visibleCount
           in emit (Status s t) (set_node s (\<lambda>n. n\<lparr>textContent := t\<rparr>) w)))"

text \<open>
  The part of \<^verbatim>\<open>filterElements\<close> between the two hooks: the loop over the elements, the
  no-results message, the status line. It yields the world and \<^verbatim>\<open>visibleCount\<close>.
\<close>

definition applyFilters :: "engine \<Rightarrow> world \<Rightarrow> world \<times> nat" where
  "applyFilters eng w =
     (let (w2, hasVisibleElements, visibleCount) =
            fold (visit eng) (arrays w (elements eng)) (w, False, 0);
          w3 = updateNoResults eng hasVisibleElements w2;
          w4 = updateStatus eng visibleCount w3
      in (w4, visibleCount))"

text \<open>
  \<^verbatim>\<open>filterElements\<close>. The method returns nothing; the model returns its two counters
  \<^verbatim>\<open>visibleCount\<close> and \<^verbatim>\<open>totalCount\<close>, so that theorems can speak of them, or what a
  hook threw.
\<close>

definition filterElements :: "engine \<Rightarrow> world \<Rightarrow> (exn + nat \<times> nat) \<times> world" where
  "filterElements eng w0 =
     (let w = emit Begin w0;
          totalCount = length (arrays w (elements eng))
      in case callBefore eng w of
           (Inl e, w1) \<Rightarrow> (Inl e, w1)
         | (Inr _, w1) \<Rightarrow>
             (case applyFilters eng w1 of
                (w4, visibleCount) \<Rightarrow>
                  (case callAfter eng visibleCount totalCount w4 of
                     (Inl e, w5) \<Rightarrow> (Inl e, w5)
                   | (Inr _, w5) \<Rightarrow> (Inr (visibleCount, totalCount), w5))))"

text \<open>A caller of the pass keeps the outcome and drops the counters.\<close>

definition outcome :: "(exn + 'a) \<Rightarrow> (exn + unit)" where
  "outcome r = (case r of Inl e \<Rightarrow> Inl e | Inr _ \<Rightarrow> Inr ())"

section \<open>The lifecycle\<close>

text \<open>
  \<^verbatim>\<open>_initializeElements\<close>: the element array is built anew, each element gets its
  \<^verbatim>\<open>viewTransitionName\<close>, the two auxiliary elements are looked up. It yields the new
  values of \<^verbatim>\<open>this.elements\<close>, \<^verbatim>\<open>this.noResultsMessage\<close> and \<^verbatim>\<open>this.statusElement\<close>.
\<close>

definition nameTransition :: "config \<Rightarrow> nat \<times> node_ref \<Rightarrow> world \<Rightarrow> world" where
  "nameTransition cfg = (\<lambda>(index, element) w.
     (let elementId = (if node_id (nodes w element) \<noteq> [] then node_id (nodes w element)
                       else ''item-'' @ string_of_nat (index + 1))
      in set_node element
           (\<lambda>n. n\<lparr>viewTransitionName := viewTransitionPrefix cfg @ ''-'' @ elementId\<rparr>) w))"

definition initializeElements ::
  "host \<Rightarrow> config \<Rightarrow> string \<Rightarrow> world \<Rightarrow> (ref \<times> node_ref option \<times> node_ref option) \<times> world" where
  "initializeElements h cfg selector w =
     (let (ea, w1) = newArray (querySelectorAll h w (root cfg) selector) w;
          w2 = fold (nameTransition cfg) (enumerate 0 (arrays w1 ea)) w1;
          noResults = querySelector h w2 (root cfg) (noResultsSelector cfg);
          status = (case statusSelector cfg of
                      None \<Rightarrow> None
                    | Some s \<Rightarrow> querySelector h w2 (root cfg) s)
      in ((ea, noResults, status), w2))"

text \<open>
  \<^verbatim>\<open>_initializeFilters\<close>: each control's value is stored under its name, the sentinel
  where the control has no value. The change listener it attaches is the host's call of
  \<^verbatim>\<open>updateFilter\<close>.
\<close>

definition registerFilter :: "config \<Rightarrow> ref \<Rightarrow> node_ref \<Rightarrow> world \<Rightarrow> world" where
  "registerFilter cfg cf fil w =
     (let filterName = name (nodes w fil)
      in setProperty cf filterName
           (case control_value (control (nodes w fil)) of
              None \<Rightarrow> allValue cfg
            | Some v \<Rightarrow> v) w)"

definition initializeFilters :: "host \<Rightarrow> config \<Rightarrow> ref \<Rightarrow> world \<Rightarrow> node_ref list \<times> world" where
  "initializeFilters h cfg cf w =
     (let fs = querySelectorAll h w (root cfg) (filtersSelector cfg)
      in (fs, fold (registerFilter cfg cf) fs w))"

text \<open>\<^verbatim>\<open>_initializeAria\<close>\<close>

definition ensureAttribute :: "node_ref \<Rightarrow> string \<Rightarrow> string \<Rightarrow> world \<Rightarrow> world" where
  "ensureAttribute a k v w =
     (if attributes (nodes w a) k = None then setAttribute a k v w else w)"

definition liveRegion :: "node_ref option \<Rightarrow> world \<Rightarrow> world" where
  "liveRegion target w =
     (case target of
        None \<Rightarrow> w
      | Some a \<Rightarrow> ensureAttribute a ''aria-live'' ''polite'' (ensureAttribute a ''role'' ''status'' w))"

definition describeBy :: "string \<Rightarrow> node_ref \<Rightarrow> world \<Rightarrow> world" where
  "describeBy statusId fil w =
     (let existing =
            filter (\<lambda>t. t \<noteq> [])
              (split_ws (trim (case attributes (nodes w fil) ''aria-describedby'' of
                                 None \<Rightarrow> []
                               | Some v \<Rightarrow> v)))
      in if statusId \<in> set existing then w
         else setAttribute fil ''aria-describedby'' (join_space (existing @ [statusId])) w)"

definition initializeAria :: "host \<Rightarrow> engine \<Rightarrow> world \<Rightarrow> world" where
  "initializeAria h eng w =
     (let w1 = liveRegion (noResultsMessage eng) w;
          w2 = liveRegion (statusElement eng) w1
      in case statusElement eng of
           None \<Rightarrow> w2
         | Some s \<Rightarrow>
             if filters eng = [] then w2
             else
               (let w3 = (if node_id (nodes w2 s) = []
                          then set_node s (\<lambda>n. n\<lparr>node_id := ''gef-status-'' @ randomSuffix h\<rparr>) w2
                          else w2)
                in fold (describeBy (node_id (nodes w3 s))) (filters eng) w3))"

text \<open>\<^verbatim>\<open>enableFiltering\<close>\<close>

definition enableFiltering :: "engine \<Rightarrow> world \<Rightarrow> world" where
  "enableFiltering eng w = fold (\<lambda>fil. setHidden fil False) (filters eng) w"




text \<open>
  \<^verbatim>\<open>reset\<close>. Assigning the sentinel to \<^verbatim>\<open>filter.value\<close> of a select selects the first
  option that has this value; assigning 0 to \<^verbatim>\<open>selectedIndex\<close> selects the first option.
\<close>

definition resetFilter :: "engine \<Rightarrow> node_ref \<Rightarrow> world \<Rightarrow> world" where
  "resetFilter eng fil w =
     (let nm = name (nodes w fil); allv = allValue (config eng)
      in if nm = [] then w
         else
           (case control (nodes w fil) of
              Select opts sel \<Rightarrow>
                (let hasAllOption = list_ex (\<lambda>opt. opt = allv) opts;
                     sel' = (if hasAllOption then index_of allv opts
                             else if length opts > 0 then Some 0
                             else sel);
                     w1 = set_node fil (\<lambda>n. n\<lparr>control := Select opts sel'\<rparr>) w
                 in setProperty (currentFilters eng) nm
                      (case control_value (control (nodes w1 fil)) of
                         None \<Rightarrow> allv
                       | Some v \<Rightarrow> v) w1)
            | Toggle checked v \<Rightarrow>
                setProperty (currentFilters eng) nm allv
                  (set_node fil (\<lambda>n. n\<lparr>control := Toggle False v\<rparr>) w)
            | Field v \<Rightarrow>
                setProperty (currentFilters eng) nm allv
                  (set_node fil (\<lambda>n. n\<lparr>control := Field []\<rparr>) w)
            | Other v \<Rightarrow> setProperty (currentFilters eng) nm allv w))"

definition reset :: "engine \<Rightarrow> world \<Rightarrow> (exn + unit) \<times> world" where
  "reset eng w =
     (if filters eng = [] then (Inr (), w)
      else (case filterElements eng (fold (resetFilter eng) (filters eng) w) of
              (r, w1) \<Rightarrow> (outcome r, w1)))"

subsection \<open>Construction\<close>

text \<open>\<^verbatim>\<open>_deriveViewTransitionPrefix\<close>\<close>

definition deriveViewTransitionPrefix :: "string \<Rightarrow> string" where
  "deriveViewTransitionPrefix selector =
     (let trimmed = trim selector
      in if trimmed = [] then ''filter-item''
         else
           (let lastPart = last (split_ws trimmed);
                withoutPseudo = takeWhile (\<lambda>c. c \<noteq> CHR '':'' \<and> c \<noteq> CHR ''['') lastPart;
                nm = dropWhile (\<lambda>c. c = CHR ''.'' \<or> c = CHR ''#'') withoutPseudo
            in if nm = [] then ''filter-item'' else nm))"

text \<open>\<^verbatim>\<open>_inferRoot\<close>\<close>

definition inferRoot :: "host \<Rightarrow> world \<Rightarrow> string \<Rightarrow> scope" where
  "inferRoot h w selector =
     (case querySelectorAll h w Document selector of
        [] \<Rightarrow> Document
      | first # _ \<Rightarrow>
          (case closest h w first ''[data-filter-root], section, article, main'' of
             Some c \<Rightarrow> Within c
           | None \<Rightarrow>
               (case parentElement h w first of
                  Some p \<Rightarrow> Within p
                | None \<Rightarrow> Document)))"

text \<open>\<^verbatim>\<open>_ensureBaseStyles\<close>: one style element is added to the head, once per page.\<close>

definition ensureBaseStyles :: "world \<Rightarrow> world" where
  "ensureBaseStyles w =
     (if baseStylesInjected w then w
      else w\<lparr>headStyles := Suc (headStyles w), baseStylesInjected := True\<rparr>)"

definition defaultStatusFormatter :: "nat \<Rightarrow> string" where
  "defaultStatusFormatter count = string_of_nat count @ '' results found''"

text \<open>The second argument of the constructor; \<open>None\<close> is a property left out.\<close>

record options =
  opt_root :: "scope option"
  opt_filtersSelector :: "string option"
  opt_noResultsSelector :: "string option"
  opt_statusSelector :: "string option"
  opt_allValue :: "string option"
  opt_viewTransitionPrefix :: "string option"
  opt_statusFormatter :: "(nat \<Rightarrow> string) option"
  opt_matchMode :: "string option"
  opt_onBeforeFilter :: "hook option"
  opt_onAfterFilter :: "hook option"

definition or_default :: "'a option \<Rightarrow> 'a \<Rightarrow> 'a" where
  "or_default x d = (case x of None \<Rightarrow> d | Some v \<Rightarrow> v)"

definition configure :: "host \<Rightarrow> string \<Rightarrow> options \<Rightarrow> world \<Rightarrow> config" where
  "configure h selector opts w =
     \<lparr>elementsSelector = selector,
      root = (case opt_root opts of Some r \<Rightarrow> r | None \<Rightarrow> inferRoot h w selector),
      filtersSelector = or_default (opt_filtersSelector opts) ''select[name]'',
      noResultsSelector = or_default (opt_noResultsSelector opts) ''.no-results-message'',
      statusSelector = (case opt_statusSelector opts of
                          None \<Rightarrow> None
                        | Some s \<Rightarrow> if s = [] then None else Some s),
      allValue = or_default (opt_allValue opts) ''all'',
      viewTransitionPrefix =
        (case opt_viewTransitionPrefix opts of
           None \<Rightarrow> deriveViewTransitionPrefix selector
         | Some p \<Rightarrow> if p = [] then deriveViewTransitionPrefix selector else p),
      statusFormatter = or_default (opt_statusFormatter opts) defaultStatusFormatter,
      matchMode = (if opt_matchMode opts = Some ''contains'' then Contains else Equals),
      onBeforeFilter = opt_onBeforeFilter opts,
      onAfterFilter = opt_onAfterFilter opts\<rparr>"

text \<open>
  The constructor: \<open>construct\<close> is its body after the check of the first argument, which
  is \<open>None\<close> when it is left out. The engine is the caller's only when the constructor
  returns; a hook that throws in the first pass makes the constructor throw.
\<close>

definition selectorRequired :: exn where
  "selectorRequired =
     Error ''GenericElementFilter: elementsSelector is required as first argument.''"

definition construct :: "host \<Rightarrow> string \<Rightarrow> options \<Rightarrow> world \<Rightarrow> (exn + engine) \<times> world" where
  "construct h selector opts w =
     (let w1 = ensureBaseStyles w;
          cfg = configure h selector opts w1;
          (cf, w2) = newObject [] w1
      in case initializeElements h cfg selector w2 of
           ((ea, noResults, status), w3) \<Rightarrow>
             (let (fs, w4) = initializeFilters h cfg cf w3;
                  eng = \<lparr>config = cfg, currentFilters = cf, elements = ea,
                         noResultsMessage = noResults, statusElement = status,
                         filters = fs\<rparr>;
                  w5 = enableFiltering eng (initializeAria h eng w4)
              in case filterElements eng w5 of
                   (Inl e, w6) \<Rightarrow> (Inl e, w6)
                 | (Inr _, w6) \<Rightarrow> (Inr eng, w6)))"

definition constructor ::
  "host \<Rightarrow> string option \<Rightarrow> options \<Rightarrow> world \<Rightarrow> (exn + engine) \<times> world" where
  "constructor h arg opts w =
     (case arg of
        None \<Rightarrow> (Inl selectorRequired, w)
      | Some selector \<Rightarrow>
          if selector = [] then (Inl selectorRequired, w)
          else construct h selector opts w)"

section \<open>Hooks that keep to what they are given\<close>

text \<open>
  A hook is confined when all it changes in the world is the object and the array it
  was passed, and objects and arrays that it made itself: the page elements and every
  other object and array that existed when it was called are as they were.
\<close>

definition confined :: "hook \<Rightarrow> bool" where
  "confined h \<longleftrightarrow>
     (\<forall>c w. case h c w of
              (r, w') \<Rightarrow>
                nodes w' = nodes w \<and> fresh w \<le> fresh w' \<and>
                (\<forall>a<fresh w. a \<noteq> c_currentFilters c \<longrightarrow> objects w' a = objects w a) \<and>
                (\<forall>a<fresh w. a \<noteq> c_elements c \<longrightarrow> arrays w' a = arrays w a))"

definition hooks_confined :: "engine \<Rightarrow> bool" where
  "hooks_confined eng \<longleftrightarrow>
     (case onBeforeFilter (config eng) of None \<Rightarrow> True | Some h \<Rightarrow> confined h) \<and>
     (case onAfterFilter (config eng) of None \<Rightarrow> True | Some h \<Rightarrow> confined h)"

text \<open>The engine's own object and array exist in the world.\<close>

definition allocated :: "engine \<Rightarrow> world \<Rightarrow> bool" where
  "allocated eng w \<longleftrightarrow> currentFilters eng < fresh w \<and> elements eng < fresh w"

section \<open>What the state holds for the controls\<close>

text \<open>
  The value a control is reset to, in the words of the specification: the sentinel,
  except for a select that does not offer the sentinel, which takes the value of its
  first option; that is the empty string when the select has no option at all.
\<close>

definition neutralValue :: "string \<Rightarrow> control \<Rightarrow> string" where
  "neutralValue allv c =
     (case c of
        Select opts sel \<Rightarrow>
          if allv \<in> set opts then allv else (case opts of [] \<Rightarrow> [] | v # _ \<Rightarrow> v)
      | _ \<Rightarrow> allv)"



section \<open>A page to run the engine on\<close>

text \<open>
  Two cards, one for spring and one for summer, a select named \<open>season\<close> that offers the
  sentinel, a no-results message, a status line, and a second select named \<open>season\<close> that
  offers only \<open>spring\<close> and \<open>summer\<close>.
\<close>

definition blank :: node where
  "blank = \<lparr>node_id = [], name = [], hidden = False, dataset = Map.empty,
            attributes = Map.empty, textContent = [], viewTransitionName = [],
            control = Other None\<rparr>"

definition demo_nodes :: "node_ref \<Rightarrow> node" where
  "demo_nodes =
     (\<lambda>_. blank)
       (0 := blank\<lparr>dataset := [''season'' \<mapsto> ''spring'']\<rparr>,
        1 := blank\<lparr>dataset := [''season'' \<mapsto> ''summer'']\<rparr>,
        2 := blank\<lparr>name := ''season'',
                   control := Select [''all'', ''spring'', ''summer''] (Some 1)\<rparr>,
        3 := blank\<lparr>hidden := True\<rparr>,
        4 := blank,
        5 := blank\<lparr>name := ''season'', control := Select [''spring'', ''summer''] (Some 1)\<rparr>)"

definition demo_page :: world where
  "demo_page = \<lparr>nodes = demo_nodes, objects = (\<lambda>_. []), arrays = (\<lambda>_. []), fresh = 0,
                log = [], baseStylesInjected = False, headStyles = 0, pendingTransitions = 0\<rparr>"



text \<open>The engine over the two cards and the first select, with \<open>season\<close> set to \<open>spring\<close>.\<close>

definition demo_config :: config where
  "demo_config =
     \<lparr>elementsSelector = ''.card'', root = Document, filtersSelector = ''select[name]'',
      noResultsSelector = ''.no-results-message'', statusSelector = Some ''.status'',
      allValue = ''all'', viewTransitionPrefix = ''card'',
      statusFormatter = defaultStatusFormatter, matchMode = Equals,
      onBeforeFilter = None, onAfterFilter = None\<rparr>"

definition demo_engine :: engine where
  "demo_engine =
     \<lparr>config = demo_config, currentFilters = 0, elements = 1,
      noResultsMessage = Some 3, statusElement = Some 4, filters = [2]\<rparr>"

definition demo_world :: world where
  "demo_world =
     demo_page\<lparr>objects := (\<lambda>_. [])(0 := [(''season'', ''spring'')]),
               arrays := (\<lambda>_. [])(1 := [0, 1]),
               fresh := 2\<rparr>"

text \<open>A hook that overwrites the object and the array it was passed, and one that throws.\<close>

definition scribble :: hook where
  "scribble c w =
     (Inr (), w\<lparr>objects := (objects w)(c_currentFilters c := [(''season'', ''winter'')]),
               arrays := (arrays w)(c_elements c := [])\<rparr>)"

definition failing :: hook where
  "failing c w = (Inl (Error ''hook failed''), w)"

definition with_hooks :: "hook option \<Rightarrow> hook option \<Rightarrow> engine \<Rightarrow> engine" where
  "with_hooks before after eng =
     eng\<lparr>config := (config eng)\<lparr>onBeforeFilter := before, onAfterFilter := after\<rparr>\<rparr>"



section \<open>Tokenisation in contains mode\<close>

lemma comma_not_space: "\<not> is_space CHR '',''"
  by (simp add: is_space_def)

lemma split_comma_nonempty: "split_comma s \<noteq> []"
  by (induction s) (auto split: list.splits)

lemma split_ws_nonempty: "split_ws s \<noteq> []"
  by (induction s rule: split_ws.induct) (auto split: list.splits)

lemma dropWhile_all: "\<forall>x\<in>set s. P x \<Longrightarrow> dropWhile P s = []"
  by (induction s) auto

lemma trimEnd_snoc_space: "is_space c \<Longrightarrow> trimEnd (s @ [c]) = trimEnd s"
  by (simp add: trimEnd_def)

lemma trim_Cons_space: "is_space c \<Longrightarrow> trim (c # s) = trim s"
  by (simp add: trim_def trimStart_def)

lemma trim_snoc_space: "is_space c \<Longrightarrow> trim (s @ [c]) = trim s"
proof (cases "\<forall>x\<in>set s. is_space x")
  case True
  assume c: "is_space c"
  from True have e: "dropWhile is_space s = []" by (rule dropWhile_all)
  from True c have e': "dropWhile is_space (s @ [c]) = []" by (intro dropWhile_all) simp
  show ?thesis by (simp only: trim_def trimStart_def trimEnd_def e e')
next
  case False
  assume c: "is_space c"
  from False have "dropWhile is_space (s @ [c]) = dropWhile is_space s @ [c]"
    by (auto simp: dropWhile_append1)
  with c show ?thesis by (simp add: trim_def trimStart_def trimEnd_def)
qed

lemma split_comma_Cons_other:
  "c \<noteq> CHR '','' \<Longrightarrow> split_comma (c # s) = (c # hd (split_comma s)) # tl (split_comma s)"
  using split_comma_nonempty [of s] by (cases "split_comma s") auto

lemma split_comma_snoc_other:
  "c \<noteq> CHR '','' \<Longrightarrow>
   split_comma (s @ [c]) = butlast (split_comma s) @ [last (split_comma s) @ [c]]"
proof (induction s)
  case Nil
  then show ?case by simp
next
  case (Cons d s)
  obtain p ps where ps: "split_comma s = p # ps"
    using split_comma_nonempty [of s] by (cases "split_comma s") auto
  show ?case
  proof (cases "d = CHR '',''")
    case True
    with Cons ps show ?thesis by simp
  next
    case False
    with Cons ps show ?thesis by (cases ps) auto
  qed
qed

lemma tokens_comma_Cons_space: "is_space c \<Longrightarrow> tokens_comma (c # s) = tokens_comma s"
proof -
  assume c: "is_space c"
  then have "c \<noteq> CHR '',''" using comma_not_space by auto
  obtain p ps where ps: "split_comma s = p # ps"
    using split_comma_nonempty [of s] by (cases "split_comma s") auto
  with c \<open>c \<noteq> CHR '',''\<close> show ?thesis
    by (simp add: tokens_comma_def trim_Cons_space)
qed

lemma tokens_comma_snoc_space: "is_space c \<Longrightarrow> tokens_comma (s @ [c]) = tokens_comma s"
proof -
  assume c: "is_space c"
  then have ne: "c \<noteq> CHR '',''" using comma_not_space by auto
  have "map trim (split_comma s) = map trim (butlast (split_comma s) @ [last (split_comma s)])"
    using split_comma_nonempty [of s] by simp
  then show ?thesis
    unfolding tokens_comma_def split_comma_snoc_other [OF ne]
    by (simp add: trim_snoc_space [OF c])
qed

lemma tokens_comma_trimStart: "tokens_comma (trimStart s) = tokens_comma s"
  unfolding trimStart_def by (induction s) (auto simp: tokens_comma_Cons_space)

lemma tokens_comma_rev_dropWhile:
  "tokens_comma (rev (dropWhile is_space xs)) = tokens_comma (rev xs)"
  by (induction xs) (auto simp: tokens_comma_snoc_space)

lemma tokens_comma_trim: "tokens_comma (trim s) = tokens_comma s"
  unfolding trim_def trimEnd_def
  using tokens_comma_rev_dropWhile [of "rev (trimStart s)"]
  by (simp add: tokens_comma_trimStart)

lemma tokens_ws_trimStart: "tokens_ws (trimStart s) = tokens_ws s"
  by (cases s) (auto simp: trimStart_def tokens_ws_def trim_def trimEnd_def)

lemma split_ws_snoc_space:
  "is_space c \<Longrightarrow>
   split_ws (s @ [c]) =
     (if s \<noteq> [] \<and> is_space (last s) then split_ws s else split_ws s @ [[]])"
proof (induction s rule: split_ws.induct)
  case 1
  then show ?case by simp
next
  case (2 d ds)
  show ?case
  proof (cases "is_space d")
    case True
    note d = this
    show ?thesis
    proof (cases "\<forall>x\<in>set ds. is_space x")
      case True
      then have e: "dropWhile is_space ds = []" by (rule dropWhile_all)
      from True 2(3) have e': "dropWhile is_space (ds @ [c]) = []" by (intro dropWhile_all) simp
      have l: "is_space (last (d # ds))" using True d by (cases ds) auto
      have "split_ws ((d # ds) @ [c]) = [[], []]" using d by (simp add: e')
      moreover have "split_ws (d # ds) = [[], []]" using d by (simp add: e)
      ultimately show ?thesis using l by simp
    next
      case False
      then have dw: "dropWhile is_space (ds @ [c]) = dropWhile is_space ds @ [c]"
        by (auto simp: dropWhile_append1)
      from False have ne: "dropWhile is_space ds \<noteq> []" by auto
      then have l: "last (dropWhile is_space ds) = last ds"
        by (metis append_Nil2 last_appendR takeWhile_dropWhile_id)
      from False have "ds \<noteq> []" by auto
      with 2(1) [OF d 2(3)] d dw ne l show ?thesis by simp
    qed
  next
    case False
    obtain p ps where ps: "split_ws ds = p # ps"
      using split_ws_nonempty [of ds] by (cases "split_ws ds") auto
    with 2(2) [OF False 2(3)] False show ?thesis by (cases ds) auto
  qed
qed

lemma tokens_ws_snoc_space: "is_space c \<Longrightarrow> tokens_ws (s @ [c]) = tokens_ws s"
  by (simp add: tokens_ws_def split_ws_snoc_space trim_def trimStart_def trimEnd_def)

lemma tokens_ws_rev_dropWhile:
  "tokens_ws (rev (dropWhile is_space xs)) = tokens_ws (rev xs)"
  by (induction xs) (auto simp: tokens_ws_snoc_space)

lemma tokens_ws_trim: "tokens_ws (trim s) = tokens_ws s"
  unfolding trim_def trimEnd_def
  using tokens_ws_rev_dropWhile [of "rev (trimStart s)"]
  by (simp add: tokens_ws_trimStart)

lemma comma_in_trim: "CHR '','' \<in> set (trim s) \<longleftrightarrow> CHR '','' \<in> set s"
proof -
  have a: "CHR '','' \<in> set (dropWhile is_space xs) \<longleftrightarrow> CHR '','' \<in> set xs" for xs
    by (induction xs) (auto simp: comma_not_space)
  show ?thesis
    unfolding trim_def trimEnd_def trimStart_def by (simp add: a)
qed

lemma containsToken_tokens:
  "containsToken d v \<longleftrightarrow>
     trim d \<noteq> [] \<and>
     v \<in> set (if CHR '','' \<in> set (trim d) then tokens_comma (trim d) else tokens_ws (trim d))"
  by (auto simp: containsToken_def tokens_comma_def tokens_ws_def list_ex_iff Let_def)

lemma spec_tokens_trim:
  "spec_tokens d = (if CHR '','' \<in> set (trim d) then tokens_comma (trim d) else tokens_ws (trim d))"
  by (simp add: spec_tokens_def comma_in_trim tokens_comma_trim tokens_ws_trim
      tokens_comma_def [symmetric] tokens_ws_def [symmetric])

lemma tokens_of_empty: "tokens_comma [] = []" "tokens_ws [] = []"
  by (simp_all add: tokens_comma_def tokens_ws_def trim_def trimStart_def trimEnd_def)

text \<open>
  Claim C2. In contains mode, for a declared attribute value and a filter value other
  than the match-all sentinel, the key contributes true exactly when some token of the
  declared value equals the filter value, the tokens being those of the specification:
  split on commas if there is a comma, else on white space runs, each trimmed, the empty
  ones dropped. The declared value \<open>forest, meadow\<close> matches \<open>forest\<close> and \<open>meadow\<close> and
  not \<open>fore\<close>, and \<open>forest meadow\<close> does the same.
\<close>

theorem contains_mode_tokens:
  assumes "ds filterName = Some declared" and "filterValue \<noteq> allv"
  shows "(matchesFilter Contains allv ds (filterName, filterValue)
            \<longleftrightarrow> filterValue \<in> set (spec_tokens declared))
         \<and> containsToken ''forest, meadow'' ''forest''
         \<and> containsToken ''forest, meadow'' ''meadow''
         \<and> \<not> containsToken ''forest, meadow'' ''fore''
         \<and> containsToken ''forest meadow'' ''forest''
         \<and> containsToken ''forest meadow'' ''meadow''
         \<and> \<not> containsToken ''forest meadow'' ''fore''"
proof -
  have "containsToken declared filterValue \<longleftrightarrow> filterValue \<in> set (spec_tokens declared)"
  proof (cases "trim declared = []")
    case True
    then have "spec_tokens declared = []"
      by (simp add: spec_tokens_trim tokens_of_empty)
    with True show ?thesis by (simp add: containsToken_tokens)
  next
    case False
    then show ?thesis by (simp add: containsToken_tokens spec_tokens_trim)
  qed
  with assms have "matchesFilter Contains allv ds (filterName, filterValue)
      \<longleftrightarrow> filterValue \<in> set (spec_tokens declared)"
    by (simp add: matchesFilter_def)
  moreover have "containsToken ''forest, meadow'' ''forest''"
    and "containsToken ''forest, meadow'' ''meadow''"
    and "\<not> containsToken ''forest, meadow'' ''fore''"
    and "containsToken ''forest meadow'' ''forest''"
    and "containsToken ''forest meadow'' ''meadow''"
    and "\<not> containsToken ''forest meadow'' ''fore''"
    by (simp_all add: containsToken_def trim_def trimStart_def trimEnd_def is_space_def)
  ultimately show ?thesis by blast
qed

theorem contains_mode_tokens_witness:
  "[''tag'' \<mapsto> ''forest meadow''] ''tag'' = Some ''forest meadow'' \<and> ''meadow'' \<noteq> ''all''
   \<and> ''meadow'' \<in> set (spec_tokens ''forest meadow'')
   \<and> matchesFilter Contains ''all'' [''tag'' \<mapsto> ''forest meadow''] (''tag'', ''meadow'')"
proof -
  have h1: "[''tag'' \<mapsto> ''forest meadow''] ''tag'' = Some ''forest meadow''" by simp
  have h2: "''meadow'' \<noteq> ''all''" by simp
  have t: "''meadow'' \<in> set (spec_tokens ''forest meadow'')"
    by (simp add: spec_tokens_def trim_def trimStart_def trimEnd_def is_space_def)
  from contains_mode_tokens
      [of "[''tag'' \<mapsto> ''forest meadow'']" "''tag''" "''forest meadow''" "''meadow''" "''all''"]
    t h1 h2
  show ?thesis by blast
qed

section \<open>The pass\<close>

lemma matchesAllFilters_cong:
  "objects w' (currentFilters eng) = objects w (currentFilters eng) \<Longrightarrow>
   dataset (nodes w' a) = dataset (nodes w a) \<Longrightarrow>
   matchesAllFilters eng w' a = matchesAllFilters eng w a"
  by (simp add: matchesAllFilters_def)

lemma matchesAllFilters_visit [simp]:
  "matchesAllFilters eng (emit e (setHidden a b w)) x = matchesAllFilters eng w x"
  by (rule matchesAllFilters_cong) (simp_all add: emit_def setHidden_def set_node_def)

lemma visit_step:
  "visit eng el (w, hv, vc) =
     (emit (Visibility el (\<not> matchesAllFilters eng w el))
        (setHidden el (\<not> matchesAllFilters eng w el) w),
      hv \<or> matchesAllFilters eng w el,
      vc + (if matchesAllFilters eng w el then 1 else 0))"
  by (simp add: visit_def)

lemma fold_visit:
  "fold (visit eng) els (w, hv, vc) =
     (w\<lparr>nodes := (\<lambda>a. if a \<in> set els
                        then (nodes w a)\<lparr>hidden := \<not> matchesAllFilters eng w a\<rparr>
                        else nodes w a),
        log := log w @ map (\<lambda>el. Visibility el (\<not> matchesAllFilters eng w el)) els\<rparr>,
      hv \<or> (\<exists>el\<in>set els. matchesAllFilters eng w el),
      vc + length (filter (matchesAllFilters eng w) els))"
proof (induction els arbitrary: w hv vc)
  case Nil
  then show ?case by simp
next
  case (Cons el els)
  show ?case
    apply (simp only: fold_simps visit_step Cons.IH matchesAllFilters_visit)
    apply (auto simp: emit_def setHidden_def set_node_def fun_eq_iff)
    done
qed


lemma count_pos: "(\<exists>x\<in>set xs. P x) \<longleftrightarrow> length (filter P xs) \<noteq> 0"
  by (induction xs) auto

lemma applyFilters_eq:
  "applyFilters eng w =
     (let els = arrays w (elements eng);
          vc = length (filter (matchesAllFilters eng w) els)
      in (updateStatus eng vc
            (updateNoResults eng (vc \<noteq> 0)
               (w\<lparr>nodes := (\<lambda>a. if a \<in> set els
                                  then (nodes w a)\<lparr>hidden := \<not> matchesAllFilters eng w a\<rparr>
                                  else nodes w a),
                  log := log w @ map (\<lambda>el. Visibility el (\<not> matchesAllFilters eng w el)) els\<rparr>)),
          vc))"
  by (simp add: applyFilters_def fold_visit count_pos Let_def)

lemma applyFilters_count:
  "snd (applyFilters eng w) = length (filter (matchesAllFilters eng w) (arrays w (elements eng)))"
  by (simp add: applyFilters_eq Let_def)

lemma applyFilters_frame:
  "objects (fst (applyFilters eng w)) = objects w"
  "arrays (fst (applyFilters eng w)) = arrays w"
  "fresh (fst (applyFilters eng w)) = fresh w"
  "baseStylesInjected (fst (applyFilters eng w)) = baseStylesInjected w"
  "headStyles (fst (applyFilters eng w)) = headStyles w"
  "pendingTransitions (fst (applyFilters eng w)) = pendingTransitions w"
  by (simp_all add: applyFilters_eq Let_def updateStatus_def updateNoResults_def emit_def
      setHidden_def set_node_def split: option.splits)


lemma applyFilters_hidden:
  "hidden (nodes (fst (applyFilters eng w)) a) =
     (if noResultsMessage eng = Some a then snd (applyFilters eng w) \<noteq> 0
      else if a \<in> set (arrays w (elements eng)) then \<not> matchesAllFilters eng w a
      else hidden (nodes w a))"
  by (simp add: applyFilters_eq Let_def updateStatus_def updateNoResults_def emit_def
      setHidden_def set_node_def split: option.splits)

lemma applyFilters_textContent:
  "textContent (nodes (fst (applyFilters eng w)) a) =
     (if statusElement eng = Some a then statusFormatter (config eng) (snd (applyFilters eng w))
      else textContent (nodes w a))"
  by (simp add: applyFilters_eq Let_def updateStatus_def updateNoResults_def emit_def
      setHidden_def set_node_def split: option.splits)

lemma applyFilters_node_frame:
  "dataset (nodes (fst (applyFilters eng w)) a) = dataset (nodes w a)"
  "name (nodes (fst (applyFilters eng w)) a) = name (nodes w a)"
  "control (nodes (fst (applyFilters eng w)) a) = control (nodes w a)"
  "node_id (nodes (fst (applyFilters eng w)) a) = node_id (nodes w a)"
  "attributes (nodes (fst (applyFilters eng w)) a) = attributes (nodes w a)"
  "viewTransitionName (nodes (fst (applyFilters eng w)) a) = viewTransitionName (nodes w a)"
  by (simp_all add: applyFilters_eq Let_def updateStatus_def updateNoResults_def emit_def
      setHidden_def set_node_def split: option.splits)

text \<open>The pass reads the world only through the state, the element array and the elements.\<close>

lemma applyFilters_cong:
  assumes "nodes w' = nodes w"
    and "objects w' (currentFilters eng) = objects w (currentFilters eng)"
    and "arrays w' (elements eng) = arrays w (elements eng)"
  shows "nodes (fst (applyFilters eng w')) = nodes (fst (applyFilters eng w))"
    and "snd (applyFilters eng w') = snd (applyFilters eng w)"
proof -
  have m: "matchesAllFilters eng w' = matchesAllFilters eng w"
    using assms by (simp add: matchesAllFilters_def fun_eq_iff)
  show "snd (applyFilters eng w') = snd (applyFilters eng w)"
    using assms by (simp add: applyFilters_count m)
  show "nodes (fst (applyFilters eng w')) = nodes (fst (applyFilters eng w))"
    by (simp add: applyFilters_eq Let_def m assms updateStatus_def updateNoResults_def emit_def
        setHidden_def set_node_def split: option.splits cong: if_cong)
qed

subsection \<open>Hooks\<close>

lemma invoke_confined:
  assumes "confined h" and "invoke h c e w = (r, w')"
  shows "nodes w' = nodes w" and "fresh w \<le> fresh w'"
    and "a < fresh w \<Longrightarrow> a \<noteq> c_currentFilters c \<Longrightarrow> objects w' a = objects w a"
    and "a < fresh w \<Longrightarrow> a \<noteq> c_elements c \<Longrightarrow> arrays w' a = arrays w a"
    and "log w' = log w @ [e]"
proof -
  obtain r0 w0 where h: "h c w = (r0, w0)" by (cases "h c w")
  with assms(2) have w': "w' = w0\<lparr>log := log w @ [e]\<rparr>" by (simp add: invoke_def)
  from assms(1) h have
    "nodes w0 = nodes w \<and> fresh w \<le> fresh w0 \<and>
     (\<forall>a<fresh w. a \<noteq> c_currentFilters c \<longrightarrow> objects w0 a = objects w a) \<and>
     (\<forall>a<fresh w. a \<noteq> c_elements c \<longrightarrow> arrays w0 a = arrays w a)"
    unfolding confined_def by (metis (mono_tags, lifting) case_prod_conv)
  with w' show "nodes w' = nodes w" and "fresh w \<le> fresh w'"
    and "a < fresh w \<Longrightarrow> a \<noteq> c_currentFilters c \<Longrightarrow> objects w' a = objects w a"
    and "a < fresh w \<Longrightarrow> a \<noteq> c_elements c \<Longrightarrow> arrays w' a = arrays w a"
    and "log w' = log w @ [e]"
    by simp_all
qed

lemma snapshot_eq:
  "snapshot eng counts w =
     (\<lparr>c_currentFilters = fresh w, c_counts = counts, c_elements = Suc (fresh w)\<rparr>,
      w\<lparr>objects := (objects w)(fresh w := objects w (currentFilters eng)),
        arrays := (arrays w)(Suc (fresh w) := arrays w (elements eng)),
        fresh := Suc (Suc (fresh w))\<rparr>)"
  by (simp add: snapshot_def newObject_def newArray_def)



lemma hook_call_confined:
  assumes c: "confined h" and a: "allocated eng w"
    and s: "snapshot eng counts w = (cx, w2)"
    and i: "invoke h cx e w2 = (r, w')"
  shows "nodes w' = nodes w \<and>
    objects w' (currentFilters eng) = objects w (currentFilters eng) \<and>
    arrays w' (elements eng) = arrays w (elements eng) \<and> fresh w \<le> fresh w'"
proof -
  from a have lt: "currentFilters eng < fresh w" "elements eng < fresh w"
    by (simp_all add: allocated_def)
  from s have cx: "cx = \<lparr>c_currentFilters = fresh w, c_counts = counts, c_elements = Suc (fresh w)\<rparr>"
    and w2: "w2 = w\<lparr>objects := (objects w)(fresh w := objects w (currentFilters eng)),
        arrays := (arrays w)(Suc (fresh w) := arrays w (elements eng)),
        fresh := Suc (Suc (fresh w))\<rparr>"
    by (simp_all add: snapshot_eq)
  from invoke_confined(1) [OF c i] invoke_confined(2) [OF c i]
    invoke_confined(3) [OF c i, of "currentFilters eng"]
    invoke_confined(4) [OF c i, of "elements eng"] lt
  show ?thesis by (simp add: cx w2)
qed

lemma callBefore_confined:
  assumes "hooks_confined eng" and "allocated eng w" and "callBefore eng w = (r, w')"
  shows "nodes w' = nodes w \<and>
    objects w' (currentFilters eng) = objects w (currentFilters eng) \<and>
    arrays w' (elements eng) = arrays w (elements eng) \<and> fresh w \<le> fresh w'"
proof (cases "onBeforeFilter (config eng)")
  case None
  with assms(3) show ?thesis by (simp add: callBefore_def)
next
  case (Some h)
  with assms(1) have c: "confined h" by (simp add: hooks_confined_def)
  obtain cx w2 where s: "snapshot eng None w = (cx, w2)" by (cases "snapshot eng None w")
  with assms(3) Some
  have "invoke h cx (Before (c_currentFilters cx) (c_elements cx)) w2 = (r, w')"
    by (simp add: callBefore_def)
  from hook_call_confined [OF c assms(2) s this] show ?thesis .
qed

lemma callAfter_confined:
  assumes "hooks_confined eng" and "allocated eng w" and "callAfter eng vc tc w = (r, w')"
  shows "nodes w' = nodes w \<and>
    objects w' (currentFilters eng) = objects w (currentFilters eng) \<and>
    arrays w' (elements eng) = arrays w (elements eng) \<and> fresh w \<le> fresh w'"
proof (cases "onAfterFilter (config eng)")
  case None
  with assms(3) show ?thesis by (simp add: callAfter_def)
next
  case (Some h)
  with assms(1) have c: "confined h" by (simp add: hooks_confined_def)
  obtain cx w2 where s: "snapshot eng (Some (vc, tc)) w = (cx, w2)"
    by (cases "snapshot eng (Some (vc, tc)) w")
  with assms(3) Some
  have "invoke h cx (After (c_currentFilters cx) vc tc (c_elements cx)) w2 = (r, w')"
    by (simp add: callAfter_def)
  from hook_call_confined [OF c assms(2) s this] show ?thesis .
qed

subsection \<open>The pass as a whole\<close>

lemma allocated_emit [simp]: "allocated eng (emit e w) = allocated eng w"
  by (simp add: allocated_def emit_def)

lemma emit_fields [simp]:
  "nodes (emit e w) = nodes w" "objects (emit e w) = objects w" "arrays (emit e w) = arrays w"
  "fresh (emit e w) = fresh w" "log (emit e w) = log w @ [e]"
  by (simp_all add: emit_def)

lemma filterElements_before_throws:
  "callBefore eng (emit Begin w) = (Inl e, w1) \<Longrightarrow> filterElements eng w = (Inl e, w1)"
  by (simp add: filterElements_def)

lemma filterElements_before_returns:
  assumes "callBefore eng (emit Begin w) = (Inr u, w1)"
  shows "filterElements eng w =
     (case callAfter eng (snd (applyFilters eng w1)) (length (arrays w (elements eng)))
             (fst (applyFilters eng w1)) of
        (Inl e, w5) \<Rightarrow> (Inl e, w5)
      | (Inr u, w5) \<Rightarrow> (Inr (snd (applyFilters eng w1), length (arrays w (elements eng))), w5))"
  using assms by (simp add: filterElements_def Let_def case_prod_beta split: sum.splits)

text \<open>With confined hooks a pass leaves the engine's state and element array alone.\<close>

lemma pass_confined_frame:
  assumes h: "hooks_confined eng" and a: "allocated eng w"
  shows "objects (snd (filterElements eng w)) (currentFilters eng) = objects w (currentFilters eng)
    \<and> arrays (snd (filterElements eng w)) (elements eng) = arrays w (elements eng)
    \<and> fresh w \<le> fresh (snd (filterElements eng w))"
proof -
  obtain r1 w1 where b: "callBefore eng (emit Begin w) = (r1, w1)"
    by (cases "callBefore eng (emit Begin w)")
  from callBefore_confined [OF h _ b] a
  have f1: "nodes w1 = nodes w" "objects w1 (currentFilters eng) = objects w (currentFilters eng)"
    "arrays w1 (elements eng) = arrays w (elements eng)" "fresh w \<le> fresh w1"
    by simp_all
  show ?thesis
  proof (cases r1)
    case (Inl e)
    with b f1 show ?thesis by (simp add: filterElements_before_throws)
  next
    case (Inr u)
    let ?w4 = "fst (applyFilters eng w1)"
    obtain r5 w5 where c: "callAfter eng (snd (applyFilters eng w1))
        (length (arrays w (elements eng))) ?w4 = (r5, w5)"
      by (cases "callAfter eng (snd (applyFilters eng w1)) (length (arrays w (elements eng))) ?w4")
    from a f1 have a4: "allocated eng ?w4"
      by (simp add: allocated_def applyFilters_frame)
    from callAfter_confined [OF h a4 c] f1
    have "objects w5 (currentFilters eng) = objects w (currentFilters eng)"
      "arrays w5 (elements eng) = arrays w (elements eng)" "fresh w \<le> fresh w5"
      by (simp_all add: applyFilters_frame)
    moreover from b Inr c have "snd (filterElements eng w) = w5"
      by (cases r5) (simp_all add: filterElements_before_returns)
    ultimately show ?thesis by simp
  qed
qed

text \<open>With confined hooks a pass that returns has done to the page what the matching says.\<close>

lemma pass_confined_result:
  assumes h: "hooks_confined eng" and a: "allocated eng w"
    and r: "fst (filterElements eng w) = Inr c"
  shows "c = (snd (applyFilters eng w), length (arrays w (elements eng)))
    \<and> nodes (snd (filterElements eng w)) = nodes (fst (applyFilters eng w))"
proof -
  obtain r1 w1 where b: "callBefore eng (emit Begin w) = (r1, w1)"
    by (cases "callBefore eng (emit Begin w)")
  from callBefore_confined [OF h _ b] a
  have f1: "nodes w1 = nodes w" "objects w1 (currentFilters eng) = objects w (currentFilters eng)"
    "arrays w1 (elements eng) = arrays w (elements eng)" "fresh w \<le> fresh w1"
    by simp_all
  from b r obtain u where r1: "r1 = Inr u"
    by (cases r1) (simp_all add: filterElements_before_throws)
  let ?w4 = "fst (applyFilters eng w1)"
  obtain r5 w5 where c: "callAfter eng (snd (applyFilters eng w1))
      (length (arrays w (elements eng))) ?w4 = (r5, w5)"
    by (cases "callAfter eng (snd (applyFilters eng w1)) (length (arrays w (elements eng))) ?w4")
  from a f1 have a4: "allocated eng ?w4"
    by (simp add: allocated_def applyFilters_frame)
  from callAfter_confined [OF h a4 c] have n5: "nodes w5 = nodes ?w4" by simp
  from b r1 c r have "c = (snd (applyFilters eng w1), length (arrays w (elements eng)))"
    and "snd (filterElements eng w) = w5"
    by (cases r5; simp add: filterElements_before_returns)+
  with n5 applyFilters_cong [OF f1(1) f1(2) f1(3)] show ?thesis by simp
qed

lemma pass_without_hooks:
  assumes "onBeforeFilter (config eng) = None" and "onAfterFilter (config eng) = None"
  shows "filterElements eng w =
           (Inr (snd (applyFilters eng (emit Begin w)), length (arrays w (elements eng))),
            fst (applyFilters eng (emit Begin w)))"
  using assms by (simp add: filterElements_def callBefore_def callAfter_def split: prod.splits)

section \<open>What a pass does\<close>

lemmas demo_defs = demo_engine_def demo_world_def demo_page_def demo_nodes_def demo_config_def
  blank_def with_hooks_def scribble_def failing_def

lemmas pass_defs = filterElements_def callBefore_def callAfter_def applyFilters_def visit_def
  updateNoResults_def updateStatus_def matchesAllFilters_def matchesFilter_def
  emit_def setHidden_def set_node_def snapshot_def newObject_def newArray_def invoke_def Let_def


lemma hooks_confined_none:
  "onBeforeFilter (config eng) = None \<Longrightarrow> onAfterFilter (config eng) = None \<Longrightarrow>
   hooks_confined eng"
  by (simp add: hooks_confined_def)

text \<open>A second pass finds the page as the first one left it.\<close>

lemma applyFilters_twice:
  "nodes (fst (applyFilters eng (fst (applyFilters eng w)))) = nodes (fst (applyFilters eng w))"
  "snd (applyFilters eng (fst (applyFilters eng w))) = snd (applyFilters eng w)"
proof -
  have m: "matchesAllFilters eng (fst (applyFilters eng w)) = matchesAllFilters eng w"
    by (simp add: matchesAllFilters_def fun_eq_iff applyFilters_frame applyFilters_node_frame)
  show c: "snd (applyFilters eng (fst (applyFilters eng w))) = snd (applyFilters eng w)"
    by (simp add: applyFilters_count m applyFilters_frame)
  show "nodes (fst (applyFilters eng (fst (applyFilters eng w)))) = nodes (fst (applyFilters eng w))"
  proof
    fix a
    let ?n = "nodes (fst (applyFilters eng w)) a"
    let ?n2 = "nodes (fst (applyFilters eng (fst (applyFilters eng w)))) a"
    have "hidden ?n2 = hidden ?n"
      by (simp add: applyFilters_hidden c m applyFilters_frame)
    moreover have "textContent ?n2 = textContent ?n"
      by (simp add: applyFilters_textContent c)
    moreover have "dataset ?n2 = dataset ?n" "name ?n2 = name ?n" "control ?n2 = control ?n"
      "node_id ?n2 = node_id ?n" "attributes ?n2 = attributes ?n"
      "viewTransitionName ?n2 = viewTransitionName ?n"
      by (simp_all add: applyFilters_node_frame)
    ultimately show "?n2 = ?n" by (intro node.equality) simp_all
  qed
qed






text \<open>
  Claim C5. Two passes in a row, with confined hooks and nothing changed in between, give
  the same visible count and total count, and the second leaves every element's
  visibility, and the whole page, as the first left it.
\<close>

theorem pass_idempotent:
  assumes "hooks_confined eng" and "allocated eng w"
    and "filterElements eng w = (Inr c1, w1)"
    and "filterElements eng w1 = (Inr c2, w2)"
  shows "c2 = c1
         \<and> (\<forall>el \<in> set (arrays w (elements eng)). hidden (nodes w2 el) = hidden (nodes w1 el))
         \<and> nodes w2 = nodes w1"
proof -
  from assms(3) have r1: "fst (filterElements eng w) = Inr c1"
    and w1: "w1 = snd (filterElements eng w)" by simp_all
  from assms(4) have r2: "fst (filterElements eng w1) = Inr c2"
    and w2: "w2 = snd (filterElements eng w1)" by simp_all
  from pass_confined_frame [OF assms(1,2)] w1
  have f: "objects w1 (currentFilters eng) = objects w (currentFilters eng)"
    "arrays w1 (elements eng) = arrays w (elements eng)" "fresh w \<le> fresh w1" by simp_all
  with assms(2) have a1: "allocated eng w1" by (simp add: allocated_def)
  from pass_confined_result [OF assms(1,2) r1] w1
  have p1: "c1 = (snd (applyFilters eng w), length (arrays w (elements eng)))"
    "nodes w1 = nodes (fst (applyFilters eng w))" by simp_all
  from pass_confined_result [OF assms(1) a1 r2] w2
  have p2: "c2 = (snd (applyFilters eng w1), length (arrays w1 (elements eng)))"
    "nodes w2 = nodes (fst (applyFilters eng w1))" by simp_all
  have "nodes (fst (applyFilters eng w1)) = nodes (fst (applyFilters eng (fst (applyFilters eng w))))"
    and "snd (applyFilters eng w1) = snd (applyFilters eng (fst (applyFilters eng w)))"
    by (rule applyFilters_cong; simp add: p1 f applyFilters_frame)+
  with p1 p2 f have "c2 = c1" and "nodes w2 = nodes w1"
    by (simp_all add: applyFilters_twice)
  then show ?thesis by simp
qed

theorem pass_idempotent_witness:
  "hooks_confined demo_engine \<and> allocated demo_engine demo_world
   \<and> filterElements demo_engine demo_world = (Inr (1, 2), snd (filterElements demo_engine demo_world))
   \<and> filterElements demo_engine (snd (filterElements demo_engine demo_world))
       = (Inr (1, 2), snd (filterElements demo_engine (snd (filterElements demo_engine demo_world))))
   \<and> nodes (snd (filterElements demo_engine (snd (filterElements demo_engine demo_world))))
       = nodes (snd (filterElements demo_engine demo_world))"
proof -
  let ?w1 = "snd (filterElements demo_engine demo_world)"
  have h1: "hooks_confined demo_engine"
    by (simp add: hooks_confined_def demo_defs)
  have h2: "allocated demo_engine demo_world"
    by (simp add: allocated_def demo_defs)
  have "fst (filterElements demo_engine demo_world) = Inr (1, 2)"
    by (simp add: pass_defs demo_defs)
  then have h3: "filterElements demo_engine demo_world = (Inr (1, 2), ?w1)"
    by (simp add: prod_eq_iff)
  have "fst (filterElements demo_engine ?w1) = Inr (1, 2)"
    by (simp add: pass_defs demo_defs)
  then have h4: "filterElements demo_engine ?w1 = (Inr (1, 2), snd (filterElements demo_engine ?w1))"
    by (simp add: prod_eq_iff)
  from pass_idempotent [OF h1 h2 h3 h4] h1 h2 h3 h4 show ?thesis by blast
qed

section \<open>Hooks, and the two early returns\<close>

lemma confined_scribble: "confined scribble"
  by (simp add: confined_def scribble_def)

lemma confined_failing: "confined failing"
  by (simp add: confined_def failing_def)

lemma applyFilters_with_hooks [simp]:
  "applyFilters (with_hooks b a eng) w = applyFilters eng w"
proof -
  have "visit (with_hooks b a eng) = visit eng"
    by (simp add: visit_def matchesAllFilters_def with_hooks_def fun_eq_iff)
  moreover have "updateNoResults (with_hooks b a eng) = updateNoResults eng"
    by (simp add: updateNoResults_def with_hooks_def fun_eq_iff split: option.splits)
  moreover have "updateStatus (with_hooks b a eng) = updateStatus eng"
    by (simp add: updateStatus_def with_hooks_def fun_eq_iff split: option.splits)
  moreover have "elements (with_hooks b a eng) = elements eng"
    by (simp add: with_hooks_def)
  ultimately show ?thesis
    by (simp add: applyFilters_def)
qed

lemma with_hooks_fields [simp]:
  "currentFilters (with_hooks b a eng) = currentFilters eng"
  "elements (with_hooks b a eng) = elements eng"
  "onBeforeFilter (config (with_hooks b a eng)) = b"
  "onAfterFilter (config (with_hooks b a eng)) = a"
  "noResultsMessage (with_hooks b a eng) = noResultsMessage eng"
  "statusElement (with_hooks b a eng) = statusElement eng"
  "filters (with_hooks b a eng) = filters eng"
  by (simp_all add: with_hooks_def)

text \<open>
  Claim C6. The constructor called without an element selector, or with the empty one,
  throws at once, and the world is as it was: no engine is made, nothing is stored and no
  pass runs.
\<close>

theorem construction_requires_selector:
  "constructor h None opts w = (Inl selectorRequired, w)
   \<and> constructor h (Some []) opts w = (Inl selectorRequired, w)"
  by (simp add: constructor_def)

text \<open>
  Claim C7. What a hook throws is what the pass throws. When the before hook throws, the
  pass has done nothing else. When the after hook throws, the pass ends there, with no
  second call; the page is as the hook left it, and if the hook did not touch the page the
  visibility that the pass gave to every tracked element is in place.
\<close>

theorem hook_exceptions_propagate:
  "(onBeforeFilter (config eng) = Some h \<longrightarrow>
      snapshot eng None (emit Begin w) = (c, wc) \<longrightarrow>
      h c wc = (Inl e, wh) \<longrightarrow>
        fst (filterElements eng w) = Inl e
        \<and> nodes (snd (filterElements eng w)) = nodes wh
        \<and> log (snd (filterElements eng w))
            = log w @ [Begin, Before (c_currentFilters c) (c_elements c)])
   \<and> (callBefore eng (emit Begin w) = (Inr u, w1) \<longrightarrow>
      applyFilters eng w1 = (w4, visibleCount) \<longrightarrow>
      onAfterFilter (config eng) = Some h' \<longrightarrow>
      snapshot eng (Some (visibleCount, length (arrays w (elements eng)))) w4 = (c', wc') \<longrightarrow>
      h' c' wc' = (Inl e', wh') \<longrightarrow>
        fst (filterElements eng w) = Inl e'
        \<and> nodes (snd (filterElements eng w)) = nodes wh'
        \<and> log (snd (filterElements eng w))
            = log w4 @ [After (c_currentFilters c') visibleCount
                          (length (arrays w (elements eng))) (c_elements c')]
        \<and> (nodes wh' = nodes wc' \<longrightarrow>
             (\<forall>el \<in> set (arrays w1 (elements eng)).
                noResultsMessage eng \<noteq> Some el \<longrightarrow>
                hidden (nodes (snd (filterElements eng w)) el)
                  = (\<not> matchesAllFilters eng w1 el))))"
proof (intro conjI impI)
  assume h: "onBeforeFilter (config eng) = Some h"
    and s: "snapshot eng None (emit Begin w) = (c, wc)"
    and t: "h c wc = (Inl e, wh)"
  from s have lw: "log wc = log w @ [Begin]" by (auto simp: snapshot_eq)
  from h s t lw have
    "callBefore eng (emit Begin w)
       = (Inl e, wh\<lparr>log := log w @ [Begin, Before (c_currentFilters c) (c_elements c)]\<rparr>)"
    by (simp add: callBefore_def invoke_def)
  from filterElements_before_throws [OF this]
  show "fst (filterElements eng w) = Inl e"
    and "nodes (snd (filterElements eng w)) = nodes wh"
    and "log (snd (filterElements eng w))
            = log w @ [Begin, Before (c_currentFilters c) (c_elements c)]"
    by simp_all
next
  assume b: "callBefore eng (emit Begin w) = (Inr u, w1)"
    and f: "applyFilters eng w1 = (w4, visibleCount)"
    and h: "onAfterFilter (config eng) = Some h'"
    and s: "snapshot eng (Some (visibleCount, length (arrays w (elements eng)))) w4 = (c', wc')"
    and t: "h' c' wc' = (Inl e', wh')"
  let ?ev = "After (c_currentFilters c') visibleCount (length (arrays w (elements eng)))
    (c_elements c')"
  from s have lw: "log wc' = log w4" and nw: "nodes wc' = nodes w4"
    by (auto simp: snapshot_eq)
  from h s t lw have
    "callAfter eng visibleCount (length (arrays w (elements eng))) w4
       = (Inl e', wh'\<lparr>log := log w4 @ [?ev]\<rparr>)"
    by (simp add: callAfter_def invoke_def)
  with filterElements_before_returns [OF b] f
  have r: "filterElements eng w = (Inl e', wh'\<lparr>log := log w4 @ [?ev]\<rparr>)" by simp
  then show "fst (filterElements eng w) = Inl e'"
    and "nodes (snd (filterElements eng w)) = nodes wh'"
    and "log (snd (filterElements eng w)) = log w4 @ [?ev]"
    by simp_all
  show "\<forall>el \<in> set (arrays w1 (elements eng)).
          noResultsMessage eng \<noteq> Some el \<longrightarrow>
          hidden (nodes (snd (filterElements eng w)) el) = (\<not> matchesAllFilters eng w1 el)"
    if "nodes wh' = nodes wc'"
  proof -
    from f have "w4 = fst (applyFilters eng w1)" by simp
    with that nw r show ?thesis by (simp add: applyFilters_hidden)
  qed
qed

theorem hook_exceptions_propagate_witness:
  "(let eng = with_hooks (Some failing) None demo_engine
    in onBeforeFilter (config eng) = Some failing
       \<and> fst (failing (fst (snapshot eng None (emit Begin demo_world)))
                (snd (snapshot eng None (emit Begin demo_world))))
           = Inl (Error ''hook failed'')
       \<and> fst (filterElements eng demo_world) = Inl (Error ''hook failed''))
   \<and> (let eng = with_hooks None (Some failing) demo_engine
      in onAfterFilter (config eng) = Some failing
         \<and> fst (filterElements eng demo_world) = Inl (Error ''hook failed'')
         \<and> \<not> hidden (nodes (snd (filterElements eng demo_world)) 0)
         \<and> hidden (nodes (snd (filterElements eng demo_world)) 1))"
proof -
  let ?b = "with_hooks (Some failing) None demo_engine"
  let ?a = "with_hooks None (Some failing) demo_engine"
  let ?cb = "fst (snapshot ?b None (emit Begin demo_world))"
  let ?wb = "snd (snapshot ?b None (emit Begin demo_world))"
  have b1: "onBeforeFilter (config ?b) = Some failing" by simp
  have b2: "snapshot ?b None (emit Begin demo_world) = (?cb, ?wb)" by simp
  have b3: "failing ?cb ?wb = (Inl (Error ''hook failed''), ?wb)" by (simp add: failing_def)
  from hook_exceptions_propagate
    [of ?b failing demo_world ?cb ?wb "Error ''hook failed''" ?wb]
    b1 b2 b3
  have rb: "fst (filterElements ?b demo_world) = Inl (Error ''hook failed'')" by blast
  let ?w1 = "emit Begin demo_world"
  let ?w4 = "fst (applyFilters ?a ?w1)"
  let ?vc = "snd (applyFilters ?a ?w1)"
  let ?ca = "fst (snapshot ?a (Some (?vc, length (arrays demo_world (elements ?a)))) ?w4)"
  let ?wa = "snd (snapshot ?a (Some (?vc, length (arrays demo_world (elements ?a)))) ?w4)"
  have a1: "callBefore ?a ?w1 = (Inr (), ?w1)" by (simp add: callBefore_def)
  have a2: "applyFilters ?a ?w1 = (?w4, ?vc)" by simp
  have a3: "onAfterFilter (config ?a) = Some failing" by simp
  have a4: "snapshot ?a (Some (?vc, length (arrays demo_world (elements ?a)))) ?w4 = (?ca, ?wa)"
    by simp
  have a5: "failing ?ca ?wa = (Inl (Error ''hook failed''), ?wa)" by (simp add: failing_def)
  have els: "arrays ?w1 (elements ?a) = [0, 1]" by (simp add: demo_defs)
  have nr: "noResultsMessage ?a \<noteq> Some 0" "noResultsMessage ?a \<noteq> Some (Suc 0)"
    by (simp_all add: demo_defs)
  have m: "matchesAllFilters ?a ?w1 0" "\<not> matchesAllFilters ?a ?w1 (Suc 0)"
    by (simp_all add: matchesAllFilters_def matchesFilter_def demo_defs)
  from hook_exceptions_propagate
    [of ?a failing demo_world ?ca ?wa "Error ''hook failed''" ?wa "()" ?w1 ?w4 ?vc failing ?ca ?wa
      "Error ''hook failed''" ?wa]
    a1 a2 a3 a4 a5
  have ra: "fst (filterElements ?a demo_world) = Inl (Error ''hook failed'')"
    and "\<forall>el \<in> set (arrays ?w1 (elements ?a)).
           noResultsMessage ?a \<noteq> Some el \<longrightarrow>
           hidden (nodes (snd (filterElements ?a demo_world)) el)
             = (\<not> matchesAllFilters ?a ?w1 el)"
    by blast+
  with els nr m have "\<not> hidden (nodes (snd (filterElements ?a demo_world)) 0)"
    and "hidden (nodes (snd (filterElements ?a demo_world)) 1)"
    by simp_all
  with rb ra b1 b3 a3 show ?thesis by (simp add: Let_def)
qed

text \<open>
  Claim C9. The hooks receive copies of the filter state and of the element array: new
  objects with the same content. For hooks that change nothing but what they were passed,
  the engine's filter state and element array are after the pass what they were before,
  and the counts and the page are those of the pass without hooks.
\<close>

theorem hooks_get_copies:
  assumes "hooks_confined eng" and "allocated eng w"
  shows "(\<forall>counts c wc. snapshot eng counts w = (c, wc) \<longrightarrow>
            objects wc (c_currentFilters c) = objects w (currentFilters eng)
            \<and> arrays wc (c_elements c) = arrays w (elements eng)
            \<and> c_currentFilters c \<noteq> currentFilters eng \<and> c_elements c \<noteq> elements eng)
         \<and> objects (snd (filterElements eng w)) (currentFilters eng)
             = objects w (currentFilters eng)
         \<and> arrays (snd (filterElements eng w)) (elements eng) = arrays w (elements eng)
         \<and> (\<forall>r. fst (filterElements eng w) = Inr r \<longrightarrow>
               fst (filterElements (with_hooks None None eng) w) = Inr r
               \<and> nodes (snd (filterElements (with_hooks None None eng) w))
                   = nodes (snd (filterElements eng w)))"
proof (intro conjI allI impI)
  fix counts c wc
  assume "snapshot eng counts w = (c, wc)"
  with assms(2) show "objects wc (c_currentFilters c) = objects w (currentFilters eng)"
    and "arrays wc (c_elements c) = arrays w (elements eng)"
    and "c_currentFilters c \<noteq> currentFilters eng" and "c_elements c \<noteq> elements eng"
    by (auto simp: snapshot_eq allocated_def)
next
  from pass_confined_frame [OF assms]
  show "objects (snd (filterElements eng w)) (currentFilters eng) = objects w (currentFilters eng)"
    and "arrays (snd (filterElements eng w)) (elements eng) = arrays w (elements eng)"
    by simp_all
next
  fix r
  assume r: "fst (filterElements eng w) = Inr r"
  let ?e0 = "with_hooks None None eng"
  from pass_confined_result [OF assms r]
  have p: "r = (snd (applyFilters eng w), length (arrays w (elements eng)))"
    "nodes (snd (filterElements eng w)) = nodes (fst (applyFilters eng w))" by simp_all
  have q: "filterElements ?e0 w =
      (Inr (snd (applyFilters eng (emit Begin w)), length (arrays w (elements eng))),
       fst (applyFilters eng (emit Begin w)))"
    using pass_without_hooks [of ?e0 w] by simp
  have "nodes (fst (applyFilters eng (emit Begin w))) = nodes (fst (applyFilters eng w))"
    and "snd (applyFilters eng (emit Begin w)) = snd (applyFilters eng w)"
    by (rule applyFilters_cong; simp)+
  with p q show "fst (filterElements ?e0 w) = Inr r"
    and "nodes (snd (filterElements ?e0 w)) = nodes (snd (filterElements eng w))"
    by simp_all
qed

theorem hooks_get_copies_witness:
  "(let eng = with_hooks (Some scribble) (Some scribble) demo_engine
    in hooks_confined eng \<and> allocated eng demo_world
       \<and> objects (snd (snapshot eng None demo_world)) 2 = [(''season'', ''spring'')]
       \<and> objects (snd (scribble (fst (snapshot eng None demo_world))
                         (snd (snapshot eng None demo_world)))) 2 = [(''season'', ''winter'')]
       \<and> objects (snd (filterElements eng demo_world)) (currentFilters eng)
           = [(''season'', ''spring'')]
       \<and> arrays (snd (filterElements eng demo_world)) (elements eng) = [0, 1]
       \<and> fst (filterElements eng demo_world) = Inr (1, 2)
       \<and> fst (filterElements (with_hooks None None eng) demo_world) = Inr (1, 2))"
proof -
  let ?eng = "with_hooks (Some scribble) (Some scribble) demo_engine"
  have h1: "hooks_confined ?eng"
    by (simp add: hooks_confined_def confined_scribble)
  have h2: "allocated ?eng demo_world"
    by (simp add: allocated_def demo_defs)
  have s: "objects demo_world (currentFilters ?eng) = [(''season'', ''spring'')]"
    "arrays demo_world (elements ?eng) = [0, 1]"
    by (simp_all add: demo_defs)
  have c1: "objects (snd (snapshot ?eng None demo_world)) 2 = [(''season'', ''spring'')]"
    by (simp add: snapshot_eq demo_defs)
  have c2: "objects (snd (scribble (fst (snapshot ?eng None demo_world))
                         (snd (snapshot ?eng None demo_world)))) 2 = [(''season'', ''winter'')]"
    by (simp add: snapshot_eq demo_defs)
  have r: "fst (filterElements ?eng demo_world) = Inr (1, 2)"
    by (simp add: pass_defs demo_defs)
  from hooks_get_copies [OF h1 h2] s r
  have "objects (snd (filterElements ?eng demo_world)) (currentFilters ?eng)
           = [(''season'', ''spring'')]"
    and "arrays (snd (filterElements ?eng demo_world)) (elements ?eng) = [0, 1]"
    and "fst (filterElements (with_hooks None None ?eng) demo_world) = Inr (1, 2)"
    by simp_all
  with h1 h2 c1 c2 r show ?thesis by (simp add: Let_def)
qed

text \<open>
  Claim C10. On an engine without controls \<^verbatim>\<open>reset\<close> returns at once: the world is
  unchanged, so no pass has run and the filter state, the visibility of every element, the
  no-results message and the status text are what they were.
\<close>

theorem reset_without_controls:
  assumes "filters eng = []"
  shows "reset eng w = (Inr (), w)
         \<and> objects (snd (reset eng w)) = objects w
         \<and> nodes (snd (reset eng w)) = nodes w
         \<and> log (snd (reset eng w)) = log w"
  using assms by (simp add: reset_def)

theorem reset_without_controls_witness:
  "filters (demo_engine\<lparr>filters := []\<rparr>) = []
   \<and> reset (demo_engine\<lparr>filters := []\<rparr>) demo_world = (Inr (), demo_world)"
proof -
  have h: "filters (demo_engine\<lparr>filters := []\<rparr>) = []" by simp
  from reset_without_controls [OF h, of demo_world] h show ?thesis by blast
qed

section \<open>Reset\<close>



lemma setProperty_fields [simp]:
  "nodes (setProperty r k v w) = nodes w" "arrays (setProperty r k v w) = arrays w"
  "fresh (setProperty r k v w) = fresh w" "log (setProperty r k v w) = log w"
  "objects (setProperty r k v w) a = (if a = r then AList.update k v (objects w r) else objects w a)"
  by (simp_all add: setProperty_def)

lemma set_node_fields [simp]:
  "objects (set_node a f w) = objects w" "arrays (set_node a f w) = arrays w"
  "fresh (set_node a f w) = fresh w" "log (set_node a f w) = log w"
  "nodes (set_node a f w) b = (if b = a then f (nodes w a) else nodes w b)"
  by (simp_all add: set_node_def)


lemma resetFilter_neutral:
  "neutralValue allv (control (nodes (resetFilter eng f w) b))
     = neutralValue allv (control (nodes w b))"
  by (cases "control (nodes w f)"; cases "b = f")
    (simp_all add: resetFilter_def Let_def neutralValue_def)



lemma fold_reset_neutral:
  "neutralValue allv (control (nodes (fold (resetFilter eng) fs w) b))
     = neutralValue allv (control (nodes w b))"
  by (induction fs arbitrary: w) (simp_all add: resetFilter_neutral)








lemma outcome_Inr [simp]: "outcome r = Inr u \<longleftrightarrow> (\<exists>c. r = Inr c)"
  by (cases r) (simp_all add: outcome_def)





section \<open>The invariant of the filter state\<close>

subsection \<open>The steps of the constructor\<close>

lemma setHidden_fields [simp]:
  "objects (setHidden a b w) = objects w" "arrays (setHidden a b w) = arrays w"
  "fresh (setHidden a b w) = fresh w" "log (setHidden a b w) = log w"
  "name (nodes (setHidden a b w) x) = name (nodes w x)"
  by (simp_all add: setHidden_def)

lemma setAttribute_fields [simp]:
  "objects (setAttribute a k v w) = objects w" "arrays (setAttribute a k v w) = arrays w"
  "fresh (setAttribute a k v w) = fresh w" "log (setAttribute a k v w) = log w"
  "name (nodes (setAttribute a k v w) x) = name (nodes w x)"
  by (simp_all add: setAttribute_def)

lemma ensureAttribute_fields [simp]:
  "objects (ensureAttribute a k v w) = objects w" "arrays (ensureAttribute a k v w) = arrays w"
  "fresh (ensureAttribute a k v w) = fresh w" "log (ensureAttribute a k v w) = log w"
  "name (nodes (ensureAttribute a k v w) x) = name (nodes w x)"
  by (simp_all add: ensureAttribute_def)

lemma liveRegion_fields [simp]:
  "objects (liveRegion t w) = objects w" "arrays (liveRegion t w) = arrays w"
  "fresh (liveRegion t w) = fresh w" "log (liveRegion t w) = log w"
  "name (nodes (liveRegion t w) x) = name (nodes w x)"
  by (simp_all add: liveRegion_def split: option.splits)

lemma describeBy_fields [simp]:
  "objects (describeBy s f w) = objects w" "arrays (describeBy s f w) = arrays w"
  "fresh (describeBy s f w) = fresh w" "log (describeBy s f w) = log w"
  "name (nodes (describeBy s f w) x) = name (nodes w x)"
  by (simp_all add: describeBy_def Let_def)

lemma fold_describeBy_fields [simp]:
  "objects (fold (describeBy s) fs w) = objects w" "arrays (fold (describeBy s) fs w) = arrays w"
  "fresh (fold (describeBy s) fs w) = fresh w" "log (fold (describeBy s) fs w) = log w"
  "name (nodes (fold (describeBy s) fs w) x) = name (nodes w x)"
  by (induction fs arbitrary: w; simp)+

lemma initializeAria_fields [simp]:
  "objects (initializeAria h eng w) = objects w" "arrays (initializeAria h eng w) = arrays w"
  "fresh (initializeAria h eng w) = fresh w" "log (initializeAria h eng w) = log w"
  "name (nodes (initializeAria h eng w) x) = name (nodes w x)"
  by (simp_all add: initializeAria_def Let_def split: option.splits)

lemma enableFiltering_fields [simp]:
  "objects (enableFiltering eng w) = objects w" "arrays (enableFiltering eng w) = arrays w"
  "fresh (enableFiltering eng w) = fresh w" "log (enableFiltering eng w) = log w"
  "name (nodes (enableFiltering eng w) x) = name (nodes w x)"
proof -
  have "objects (fold (\<lambda>fil. setHidden fil False) fs w) = objects w
      \<and> arrays (fold (\<lambda>fil. setHidden fil False) fs w) = arrays w
      \<and> fresh (fold (\<lambda>fil. setHidden fil False) fs w) = fresh w
      \<and> log (fold (\<lambda>fil. setHidden fil False) fs w) = log w
      \<and> name (nodes (fold (\<lambda>fil. setHidden fil False) fs w) x) = name (nodes w x)" for fs
    by (induction fs arbitrary: w) simp_all
  then show "objects (enableFiltering eng w) = objects w" "arrays (enableFiltering eng w) = arrays w"
    "fresh (enableFiltering eng w) = fresh w" "log (enableFiltering eng w) = log w"
    "name (nodes (enableFiltering eng w) x) = name (nodes w x)"
    by (simp_all add: enableFiltering_def)
qed

lemma ensureBaseStyles_fields [simp]:
  "objects (ensureBaseStyles w) = objects w" "arrays (ensureBaseStyles w) = arrays w"
  "fresh (ensureBaseStyles w) = fresh w" "log (ensureBaseStyles w) = log w"
  "nodes (ensureBaseStyles w) = nodes w"
  by (simp_all add: ensureBaseStyles_def)

lemma fold_nameTransition_fields [simp]:
  "objects (fold (nameTransition cfg) xs w) = objects w"
  "arrays (fold (nameTransition cfg) xs w) = arrays w"
  "fresh (fold (nameTransition cfg) xs w) = fresh w"
  "log (fold (nameTransition cfg) xs w) = log w"
  "name (nodes (fold (nameTransition cfg) xs w) x) = name (nodes w x)"
  by (induction xs arbitrary: w; simp add: nameTransition_def Let_def split: prod.splits)+


lemma registerFilter_fields [simp]:
  "nodes (registerFilter cfg cf f w) = nodes w" "arrays (registerFilter cfg cf f w) = arrays w"
  "fresh (registerFilter cfg cf f w) = fresh w" "log (registerFilter cfg cf f w) = log w"
  by (simp_all add: registerFilter_def Let_def)

lemma fold_registerFilter_fields [simp]:
  "nodes (fold (registerFilter cfg cf) fs w) = nodes w"
  "arrays (fold (registerFilter cfg cf) fs w) = arrays w"
  "fresh (fold (registerFilter cfg cf) fs w) = fresh w"
  "log (fold (registerFilter cfg cf) fs w) = log w"
  by (induction fs arbitrary: w; simp)+



subsection \<open>The invariant under a pass and under an assignment\<close>














end
